theory Spec2Isabelle
  imports Complex_Main "HOL-Library.Sublist"
begin

section \<open>The tegrastats power sampler (tegrastats_sampler.py)\<close>

text \<open>
  The class \<^verbatim>\<open>TegrastatsMonitor\<close> keeps a bounded buffer of
  \<open>(timestamp, power_mw)\<close> readings and integrates them to an energy. Python's
  \<^verbatim>\<open>float\<close> values are modelled as \<^typ>\<open>real\<close>: the arithmetic below is the
  exact arithmetic of the formulas in the source, without the rounding of IEEE doubles.
\<close>

subsection \<open>Data\<close>

type_synonym sample = "real \<times> real"

text \<open>
  What the methods print. Each constructor is one \<^verbatim>\<open>print\<close> call of the source,
  carrying the values that the f-string formats.
\<close>

datatype message =
    Warning_only_samples nat
  | Measuring_idle real
  | Idle_power real nat
  | Monitor_stopped

text \<open>
  The subprocess and the reader thread are outside the model; the monitor only holds
  their handles, and \<open>stop\<close> records the calls it makes on them.
\<close>

datatype event =
    Terminate nat
  | Wait nat
  | Kill nat
  | Join nat
  | Print message

text \<open>
  \<^verbatim>\<open>time.sleep\<close> is library code. It raises \<^verbatim>\<open>ValueError\<close> for a length
  that is negative or not a number and \<^verbatim>\<open>OverflowError\<close> for a length beyond
  what its C time type holds; otherwise it returns when the time has passed. Which of
  these happens for a given length is the library's matter, so the outcome of the sleep
  in \<open>measure_idle\<close> is given from outside: either the exception, or the return,
  with the readings \<open>arrived\<close> that the reader thread stored between the
  \<^verbatim>\<open>clear_samples()\<close> and the snapshot that \<^verbatim>\<open>get_samples\<close> takes, and
  the reading \<open>t_end\<close> of \<^verbatim>\<open>time.time()\<close> after the sleep.
\<close>

datatype sleep_error = ValueError | OverflowError



record monitor =
  interval_ms :: int
  process :: "nat option"
  thread :: "nat option"
  running :: bool
  samples :: "sample list"

text \<open>\<^verbatim>\<open>__init__\<close>: a stopped monitor with an empty buffer.\<close>

definition init :: "int \<Rightarrow> monitor" where
  "init interval = \<lparr>interval_ms = interval, process = None, thread = None,
     running = False, samples = []\<rparr>"

subsection \<open>The power-line parser\<close>

text \<open>
  A line is a \<^typ>\<open>string\<close>: its characters are the code points below 256
  (\<^verbatim>\<open>tegrastats\<close> writes ASCII). In this range the class \<^verbatim>\<open>\s\<close> of a Python
  \<^verbatim>\<open>str\<close> pattern holds the code points 9 to 13, 28 to 32, 133 and 160, and the
  class \<^verbatim>\<open>\d\<close> holds the digits \<open>0\<close> to \<open>9\<close>.
\<close>

definition is_space :: "char \<Rightarrow> bool" where
  "is_space c =
     (let n = (of_char c :: nat)
      in (9 \<le> n \<and> n \<le> 13) \<or> (28 \<le> n \<and> n \<le> 32) \<or> n = 133 \<or> n = 160)"

definition is_digit :: "char \<Rightarrow> bool" where
  "is_digit c = (let n = (of_char c :: nat) in 48 \<le> n \<and> n \<le> 57)"

definition digit_value :: "char \<Rightarrow> nat" where
  "digit_value c = of_char c - 48"

text \<open>
  \<^verbatim>\<open>float(match.group(1))\<close> on a group of decimal digits: the number that the
  digits write, as a real.
\<close>

definition float_of_digits :: "string \<Rightarrow> real" where
  "float_of_digits ds = real (foldl (\<lambda>acc c. 10 * acc + digit_value c) 0 ds)"

text \<open>
  A match of the pattern \<^verbatim>\<open>NAME\s+(\d+)/(\d+)\<close> at the start of \<open>s\<close>, with its two
  groups. The quantifiers are greedy, and backtracking cannot find a match that the
  longest runs miss: a whitespace character is no digit, and a digit is no \<open>/\<close>.
\<close>

definition match_field :: "string \<Rightarrow> string \<Rightarrow> (string \<times> string) option" where
  "match_field name s =
     (if \<not> prefix name s then None
      else
        let r1 = drop (length name) s;
            ws = takeWhile is_space r1;
            r2 = dropWhile is_space r1
        in if ws = [] then None
           else
             let g1 = takeWhile is_digit r2;
                 r3 = dropWhile is_digit r2
             in if g1 = [] then None
                else (case r3 of
                        [] \<Rightarrow> None
                      | c # r4 \<Rightarrow>
                          if c \<noteq> CHR ''/'' then None
                          else
                            let g2 = takeWhile is_digit r4
                            in if g2 = [] then None else Some (g1, g2)))"

text \<open>\<^verbatim>\<open>re.search\<close>: the match at the leftmost position that has one.\<close>

fun re_search :: "string \<Rightarrow> string \<Rightarrow> (string \<times> string) option" where
  "re_search name [] = match_field name []"
| "re_search name (c # cs) =
     (case match_field name (c # cs) of
        Some groups \<Rightarrow> Some groups
      | None \<Rightarrow> re_search name cs)"

text \<open>
  \<^verbatim>\<open>_parse_power\<close>. On a string nothing inside the \<^verbatim>\<open>try\<close> raises
  (\<^verbatim>\<open>float\<close> is only applied to a group of digits), so the handler is never
  entered and the model has no error case.
\<close>

definition parse_power :: "string \<Rightarrow> real option" where
  "parse_power line =
     (case re_search ''VDD_IN'' line of
        Some (current, average) \<Rightarrow> Some (float_of_digits current)
      | None \<Rightarrow>
          (case re_search ''POM_5V_IN'' line of
             Some (current, average) \<Rightarrow> Some (float_of_digits current)
           | None \<Rightarrow> None))"

text \<open>
  What a well-formed field is, for the statements about the parser: at position \<open>i\<close> of
  the line stands the field name, then whitespace, then the digits \<open>current\<close>, a slash
  and at least one digit of the average.
\<close>

definition field_at :: "string \<Rightarrow> string \<Rightarrow> nat \<Rightarrow> string \<Rightarrow> bool" where
  "field_at name line i current \<longleftrightarrow>
     (\<exists>ws average rest.
        drop i line = name @ ws @ current @ ''/'' @ average @ rest
        \<and> ws \<noteq> [] \<and> (\<forall>c\<in>set ws. is_space c)
        \<and> current \<noteq> [] \<and> (\<forall>c\<in>set current. is_digit c)
        \<and> average \<noteq> [] \<and> (\<forall>c\<in>set average. is_digit c))"

subsection \<open>The sample buffer\<close>

text \<open>\<^verbatim>\<open>deque(maxlen=100000)\<close>.\<close>

definition maxlen :: nat where
  "maxlen = 100000"

text \<open>
  \<^verbatim>\<open>deque.append\<close> on a bounded deque: when the deque is full, one item is
  discarded from the left end as the new one is added on the right.
\<close>

definition deque_append :: "'a list \<Rightarrow> 'a \<Rightarrow> 'a list" where
  "deque_append d x = (if length d < maxlen then d @ [x] else tl d @ [x])"

text \<open>The two lines of \<^verbatim>\<open>_reader_thread\<close> that store a parsed reading.\<close>

definition append_sample :: "monitor \<Rightarrow> sample \<Rightarrow> monitor" where
  "append_sample m s = m\<lparr>samples := deque_append (samples m) s\<rparr>"

definition clear_samples :: "monitor \<Rightarrow> monitor" where
  "clear_samples m = m\<lparr>samples := []\<rparr>"

definition get_samples :: "monitor \<Rightarrow> real option \<Rightarrow> real option \<Rightarrow> sample list" where
  "get_samples m t_start t_end =
     (let samples0 = samples m;
          samples1 = (case t_start of None \<Rightarrow> samples0
                      | Some ts \<Rightarrow> filter (\<lambda>(t, p). t \<ge> ts) samples0);
          samples2 = (case t_end of None \<Rightarrow> samples1
                      | Some te \<Rightarrow> filter (\<lambda>(t, p). t \<le> te) samples1)
      in samples2)"

text \<open>
  The readings that the reader thread stores one after the other, each by
  \<open>append_sample\<close>.
\<close>

definition append_samples :: "monitor \<Rightarrow> sample list \<Rightarrow> monitor" where
  "append_samples m xs = foldl append_sample m xs"

subsection \<open>Lifecycle\<close>

text \<open>
  \<^verbatim>\<open>stop\<close>. The flag \<open>exits_in_time\<close> says whether the subprocess ends within
  the two seconds of \<^verbatim>\<open>process.wait(timeout=2)\<close>; when it does not, the
  \<^verbatim>\<open>TimeoutExpired\<close> handler kills it. The result is the monitor and the calls
  made, in order.
\<close>

definition stop :: "bool \<Rightarrow> monitor \<Rightarrow> monitor \<times> event list" where
  "stop exits_in_time m =
     (if \<not> running m then (m, [])
      else
        let m1 = m\<lparr>running := False\<rparr>;
            (m2, ev1) = (case process m1 of
                           None \<Rightarrow> (m1, [])
                         | Some pr \<Rightarrow> (m1\<lparr>process := None\<rparr>,
                             [Terminate pr, Wait pr] @ (if exits_in_time then [] else [Kill pr])));
            (m3, ev2) = (case thread m2 of
                           None \<Rightarrow> (m2, [])
                         | Some th \<Rightarrow> (m2\<lparr>thread := None\<rparr>, [Join th]))
        in (m3, ev1 @ ev2 @ [Print Monitor_stopped]))"

subsection \<open>Idle calibration\<close>


subsection \<open>Energy integration\<close>

text \<open>One pass of the loop body of \<^verbatim>\<open>integrate_energy\<close>, at index \<open>i\<close>.\<close>

definition trapezoid_step :: "sample list \<Rightarrow> real \<Rightarrow> nat \<Rightarrow> real \<Rightarrow> real" where
  "trapezoid_step ss idle_mw i energy_j =
     (let (t1, p1) = ss ! i;
          (t2, p2) = ss ! (i + 1);
          p1_active = max 0 (p1 - idle_mw);
          p2_active = max 0 (p2 - idle_mw);
          p1_w = p1_active / 1000;
          p2_w = p2_active / 1000;
          dt = t2 - t1;
          avg_power = (p1_w + p2_w) / 2
      in energy_j + avg_power * dt)"

text \<open>
  \<^verbatim>\<open>integrate_energy\<close> returns the energy; the model returns it together with
  what was printed. The loop runs over \<^verbatim>\<open>range(len(samples) - 1)\<close>, so both
  list reads are in range.
\<close>

definition integrate_energy :: "monitor \<Rightarrow> real \<Rightarrow> real \<Rightarrow> real \<Rightarrow> real \<times> message list" where
  "integrate_energy m t_start t_end idle_mw =
     (let ss = get_samples m (Some t_start) (Some t_end) in
      if length ss < 2 then
        (if length ss = 1 then
           (let duration = t_end - t_start;
                power_w = (snd (ss ! 0) - idle_mw) / 1000
            in (max 0 (power_w * duration), [Warning_only_samples (length ss)]))
         else (0, [Warning_only_samples (length ss)]))
      else (fold (trapezoid_step ss idle_mw) [0..<length ss - 1] 0, []))"

text \<open>
  The area that one adjacent pair of samples adds to the integral: the increment of
  \<open>trapezoid_step\<close>, written on the two samples. It is used to state the lemmas on the loop.
\<close>

definition pair_area :: "real \<Rightarrow> sample \<Rightarrow> sample \<Rightarrow> real" where
  "pair_area idle_mw a b =
     ((max 0 (snd a - idle_mw) / 1000 + max 0 (snd b - idle_mw) / 1000) / 2) * (fst b - fst a)"

section \<open>Properties\<close>

subsection \<open>Helper lemmas on the integration loop\<close>

lemma trapezoid_step_eq:
  "trapezoid_step ss idle_mw i e = e + pair_area idle_mw (ss ! i) (ss ! (i + 1))"
  by (simp add: trapezoid_step_def pair_area_def split: prod.splits)

lemma fold_trapezoid_acc:
  "fold (trapezoid_step ss idle_mw) is e =
     e + (\<Sum>i\<leftarrow>is. pair_area idle_mw (ss ! i) (ss ! (i + 1)))"
  by (induction "is" arbitrary: e) (simp_all add: trapezoid_step_eq)

lemma consecutive_pairs_nth:
  "map (\<lambda>i. f (ss ! i) (ss ! (i + 1))) [0..<length ss - 1] = map (\<lambda>(a, b). f a b) (zip ss (tl ss))"
  by (rule nth_equalityI) (simp_all add: nth_tl)

lemma fold_trapezoid_pairs:
  "fold (trapezoid_step ss idle_mw) [0..<length ss - 1] 0 =
     (\<Sum>(a, b)\<leftarrow>zip ss (tl ss). pair_area idle_mw a b)"
  using consecutive_pairs_nth [of "pair_area idle_mw" ss]
  by (simp add: fold_trapezoid_acc)

lemma integrate_energy_many:
  "2 \<le> length (get_samples m (Some t_start) (Some t_end)) \<Longrightarrow>
   integrate_energy m t_start t_end idle_mw =
     ((\<Sum>(a, b)\<leftarrow>zip (get_samples m (Some t_start) (Some t_end))
                       (tl (get_samples m (Some t_start) (Some t_end))). pair_area idle_mw a b), [])"
  using fold_trapezoid_pairs [of "get_samples m (Some t_start) (Some t_end)" idle_mw]
  by (simp add: integrate_energy_def Let_def)

lemma get_samples_window:
  "get_samples m (Some t_start) (Some t_end) =
     filter (\<lambda>(t, p). t_start \<le> t \<and> t \<le> t_end) (samples m)"
  by (simp add: get_samples_def case_prod_unfold conj_commute)

lemma get_samples_empty_window:
  "t_end < t_start \<Longrightarrow> get_samples m (Some t_start) (Some t_end) = []"
  by (auto simp: get_samples_window filter_empty_conv)

lemma pair_area_nonneg: "fst a \<le> fst b \<Longrightarrow> 0 \<le> pair_area idle_mw a b"
  by (simp add: pair_area_def)

lemma pair_area_antimono:
  assumes "fst a \<le> fst b" and "idle1 \<le> idle2"
  shows "pair_area idle2 a b \<le> pair_area idle1 a b"
proof -
  have "max 0 (snd a - idle2) \<le> max 0 (snd a - idle1)"
    and "max 0 (snd b - idle2) \<le> max 0 (snd b - idle1)"
    using assms(2) by linarith+
  then have "(max 0 (snd a - idle2) / 1000 + max 0 (snd b - idle2) / 1000) / 2
      \<le> (max 0 (snd a - idle1) / 1000 + max 0 (snd b - idle1) / 1000) / 2"
    by (intro divide_right_mono add_mono) simp_all
  then show ?thesis
    unfolding pair_area_def using assms(1) by (intro mult_right_mono) simp_all
qed

lemma pair_area_below_idle:
  "snd a \<le> idle_mw \<Longrightarrow> snd b \<le> idle_mw \<Longrightarrow> pair_area idle_mw a b = 0"
  by (simp add: pair_area_def)

lemma sorted_consecutive:
  assumes "sorted (map fst ss)" and "(a, b) \<in> set (zip ss (tl ss))"
  shows "fst a \<le> fst b"
proof -
  from assms(2) obtain i where i: "i < length ss - 1" "a = ss ! i" "b = tl ss ! i"
    by (auto simp: in_set_zip)
  then have "b = ss ! Suc i" by (simp add: nth_tl)
  moreover have "map fst ss ! i \<le> map fst ss ! Suc i"
    using assms(1) i(1) by (intro sorted_nth_mono) simp_all
  ultimately show ?thesis using i by simp
qed

lemma sorted_get_samples:
  "sorted (map fst (samples m)) \<Longrightarrow> sorted (map fst (get_samples m (Some t_start) (Some t_end)))"
  by (simp add: get_samples_window sorted_filter)

lemma pair_area_constant:
  "snd a = p \<Longrightarrow> snd b = p \<Longrightarrow>
   pair_area idle_mw a b = max 0 (p - idle_mw) / 1000 * (fst b - fst a)"
  by (simp add: pair_area_def)

lemma telescope_pairs:
  "ss \<noteq> [] \<Longrightarrow>
   (\<Sum>(a, b)\<leftarrow>zip ss (tl ss). c * (fst b - fst a)) = c * (fst (last ss) - fst (hd ss :: sample))"
proof (induction ss)
  case Nil
  then show ?case by simp
next
  case (Cons x xs)
  show ?case
  proof (cases xs)
    case Nil
    then show ?thesis by simp
  next
    case (Cons y ys)
    with Cons.IH have "(\<Sum>(a, b)\<leftarrow>zip xs (tl xs). c * (fst b - fst a)) = c * (fst (last xs) - fst y)"
      by simp
    then show ?thesis
      using Cons by (simp add: algebra_simps)
  qed
qed

lemma pair_area_sum_constant:
  assumes "ss \<noteq> []" and "\<forall>s\<in>set ss. snd s = p"
  shows "(\<Sum>(a, b)\<leftarrow>zip ss (tl ss). pair_area idle_mw a b) =
     max 0 (p - idle_mw) / 1000 * (fst (last ss) - fst (hd ss))"
proof -
  have "pair_area idle_mw a b = max 0 (p - idle_mw) / 1000 * (fst b - fst a)"
    if "(a, b) \<in> set (zip ss (tl ss))" for a b
  proof -
    have "a \<in> set ss" using that by (rule set_zip_leftD)
    moreover have "b \<in> set (tl ss)" using that by (rule set_zip_rightD)
    then have "b \<in> set ss" using assms(1) by (rule list.set_sel(2) [rotated])
    ultimately show ?thesis using assms(2) by (simp add: pair_area_constant)
  qed
  then have "map (\<lambda>(a, b). pair_area idle_mw a b) (zip ss (tl ss)) =
      map (\<lambda>(a, b). max 0 (p - idle_mw) / 1000 * (fst b - fst a)) (zip ss (tl ss))"
    by (intro map_cong refl) auto
  then have "(\<Sum>(a, b)\<leftarrow>zip ss (tl ss). pair_area idle_mw a b) =
      (\<Sum>(a, b)\<leftarrow>zip ss (tl ss). max 0 (p - idle_mw) / 1000 * (fst b - fst a))"
    by (rule arg_cong)
  also have "\<dots> = max 0 (p - idle_mw) / 1000 * (fst (last ss) - fst (hd ss))"
    using assms(1) by (rule telescope_pairs)
  finally show ?thesis .
qed

subsection \<open>Trapezoidal integration\<close>

text \<open>
  C1. When two or more buffered samples have their timestamp in \<open>[t_start, t_end]\<close>,
  \<open>integrate_energy\<close> returns the sum, over the consecutive pairs \<open>(t1, p1), (t2, p2)\<close> of
  the selected samples, of \<open>((max 0 (p1 - idle_mw) / 1000 + max 0 (p2 - idle_mw) / 1000) / 2) * (t2 - t1)\<close>,
  and prints nothing. The witness is the instance of the spec: with the samples
  \<open>(0, 1000)\<close> and \<open>(2, 2000)\<close> and no idle power, the energy over \<open>[0, 2]\<close> is \<open>3\<close> joules.
\<close>

theorem integrate_energy_trapezoid:
  assumes "ss = filter (\<lambda>(t, p). t_start \<le> t \<and> t \<le> t_end) (samples m)"
    and "2 \<le> length ss"
  shows "integrate_energy m t_start t_end idle_mw =
     ((\<Sum>((t1, p1), (t2, p2))\<leftarrow>zip ss (tl ss).
         ((max 0 (p1 - idle_mw) / 1000 + max 0 (p2 - idle_mw) / 1000) / 2) * (t2 - t1)), [])"
proof -
  have ss: "get_samples m (Some t_start) (Some t_end) = ss"
    using assms(1) by (simp add: get_samples_window)
  have "(\<lambda>(a, b). pair_area idle_mw a b) =
      (\<lambda>((t1, p1), (t2, p2)).
         ((max 0 (p1 - idle_mw) / 1000 + max 0 (p2 - idle_mw) / 1000) / 2) * (t2 - t1))"
    by (auto simp: pair_area_def fun_eq_iff)
  then show ?thesis
    using integrate_energy_many [of m t_start t_end idle_mw] assms(2) by (simp add: ss)
qed

theorem integrate_energy_trapezoid_witness:
  "integrate_energy ((init 100)\<lparr>samples := [(0, 1000), (2, 2000)]\<rparr>) 0 2 0 = (3, [])"
  using integrate_energy_trapezoid
    [of "[(0, 1000), (2, 2000)]" 0 2 "(init 100)\<lparr>samples := [(0, 1000), (2, 2000)]\<rparr>" 0]
  by (simp add: init_def)

subsection \<open>A single sample in the window\<close>

text \<open>
  C2 (as amended). When exactly one buffered sample \<open>(t, p)\<close> has its timestamp in
  \<open>[t_start, t_end]\<close>, \<open>integrate_energy\<close> returns
  \<open>max 0 (p - idle_mw) / 1000 * (t_end - t_start)\<close> and prints the warning. The source
  clamps the product \<open>power_w * duration\<close>; the duration is not negative here, because the
  sample lies in the window, so clamping the power gives the same value.
\<close>

theorem integrate_energy_single:
  assumes "filter (\<lambda>(t, p). t_start \<le> t \<and> t \<le> t_end) (samples m) = [(t, p)]"
  shows "integrate_energy m t_start t_end idle_mw =
     (max 0 (p - idle_mw) / 1000 * (t_end - t_start), [Warning_only_samples 1])"
proof -
  have ss: "get_samples m (Some t_start) (Some t_end) = [(t, p)]"
    using assms by (simp add: get_samples_window)
  have "(t, p) \<in> set (filter (\<lambda>(t, p). t_start \<le> t \<and> t \<le> t_end) (samples m))"
    by (simp add: assms)
  then have d: "0 \<le> t_end - t_start" by auto
  have "max 0 ((p - idle_mw) / 1000 * (t_end - t_start)) =
      max 0 (p - idle_mw) / 1000 * (t_end - t_start)"
  proof (cases "p \<le> idle_mw")
    case True
    then have "(p - idle_mw) / 1000 * (t_end - t_start) \<le> 0"
      using d by (simp add: mult_nonpos_nonneg)
    with True show ?thesis by simp
  next
    case False
    then have "0 \<le> (p - idle_mw) / 1000 * (t_end - t_start)"
      using d by simp
    with False show ?thesis by simp
  qed
  then show ?thesis
    by (simp add: integrate_energy_def ss)
qed

text \<open>
  The instance: the single sample \<open>(2, 3000)\<close>, an idle power of \<open>1000\<close> and the
  window \<open>[0, 4]\<close> give \<open>8\<close> joules.
\<close>

theorem integrate_energy_single_witness:
  "integrate_energy ((init 100)\<lparr>samples := [(2, 3000)]\<rparr>) 0 4 1000 = (8, [Warning_only_samples 1])"
  using integrate_energy_single [of 0 4 "(init 100)\<lparr>samples := [(2, 3000)]\<rparr>" 2 3000 1000]
  by (simp add: init_def)

text \<open>
  The instance of the spec has its only sample at \<open>t = 5\<close>, outside the window \<open>[0, 4]\<close>:
  \<open>get_samples\<close> selects nothing and the result is \<open>0\<close>, not \<open>8\<close>.
\<close>

theorem integrate_energy_single_outside_window:
  "integrate_energy ((init 100)\<lparr>samples := [(5, 3000)]\<rparr>) 0 4 1000 = (0, [Warning_only_samples 0])
   \<and> fst (integrate_energy ((init 100)\<lparr>samples := [(5, 3000)]\<rparr>) 0 4 1000) \<noteq> 8"
  by (simp add: integrate_energy_def get_samples_def init_def)

subsection \<open>No sample in the window\<close>

text \<open>
  C5. When no buffered sample has its timestamp in \<open>[t_start, t_end]\<close>, and so whenever
  \<open>t_start > t_end\<close>, \<open>integrate_energy\<close> returns \<open>0\<close> and prints the warning
  \<^verbatim>\<open>Warning: Only 0 samples for energy calculation\<close>. The function has no
  \<^verbatim>\<open>raise\<close> and no partial operation on this path: it returns a value.
\<close>

theorem integrate_energy_no_samples:
  "(filter (\<lambda>(t, p). t_start \<le> t \<and> t \<le> t_end) (samples m) = [] \<longrightarrow>
      integrate_energy m t_start t_end idle_mw = (0, [Warning_only_samples 0]))
   \<and> (t_start > t_end \<longrightarrow>
      integrate_energy m t_start t_end idle_mw = (0, [Warning_only_samples 0]))"
proof (intro conjI impI)
  assume "filter (\<lambda>(t, p). t_start \<le> t \<and> t \<le> t_end) (samples m) = []"
  then have "get_samples m (Some t_start) (Some t_end) = []"
    by (simp add: get_samples_window)
  then show "integrate_energy m t_start t_end idle_mw = (0, [Warning_only_samples 0])"
    by (simp add: integrate_energy_def)
next
  assume "t_start > t_end"
  then have "get_samples m (Some t_start) (Some t_end) = []"
    by (rule get_samples_empty_window)
  then show "integrate_energy m t_start t_end idle_mw = (0, [Warning_only_samples 0])"
    by (simp add: integrate_energy_def)
qed

theorem integrate_energy_no_samples_witness:
  "integrate_energy ((init 100)\<lparr>samples := [(5, 3000)]\<rparr>) 6 9 0 = (0, [Warning_only_samples 0])
   \<and> integrate_energy ((init 100)\<lparr>samples := [(5, 3000)]\<rparr>) 7 3 0 = (0, [Warning_only_samples 0])"
  using integrate_energy_no_samples [of 6 9 "(init 100)\<lparr>samples := [(5, 3000)]\<rparr>" 0]
    integrate_energy_no_samples [of 7 3 "(init 100)\<lparr>samples := [(5, 3000)]\<rparr>" 0]
  by (simp add: init_def)

subsection \<open>Idle subtraction\<close>

lemma integrate_energy_few:
  "length (get_samples m (Some t_start) (Some t_end)) < 2 \<Longrightarrow>
   fst (integrate_energy m t_start t_end idle_mw) =
     (case get_samples m (Some t_start) (Some t_end) of
        [] \<Rightarrow> 0
      | s # _ \<Rightarrow> max 0 ((snd s - idle_mw) / 1000 * (t_end - t_start)))"
  by (cases "get_samples m (Some t_start) (Some t_end)") (simp_all add: integrate_energy_def)

text \<open>
  C3. For a buffer whose timestamps do not decrease and a window with
  \<open>t_start \<le> t_end\<close>, a larger idle power never gives a larger energy, and the energy is
  never negative.
\<close>

theorem integrate_energy_idle_antimono:
  assumes "sorted (map fst (samples m))" and "t_start \<le> t_end" and "idle1 \<le> idle2"
  shows "fst (integrate_energy m t_start t_end idle2) \<le> fst (integrate_energy m t_start t_end idle1)
     \<and> 0 \<le> fst (integrate_energy m t_start t_end idle1)"
proof (cases "2 \<le> length (get_samples m (Some t_start) (Some t_end))")
  case True
  let ?ss = "get_samples m (Some t_start) (Some t_end)"
  have ordered: "fst a \<le> fst b" if "(a, b) \<in> set (zip ?ss (tl ?ss))" for a b
    using sorted_get_samples [OF assms(1)] that by (rule sorted_consecutive)
  have "(\<Sum>(a, b)\<leftarrow>zip ?ss (tl ?ss). pair_area idle2 a b)
      \<le> (\<Sum>(a, b)\<leftarrow>zip ?ss (tl ?ss). pair_area idle1 a b)"
    by (rule sum_list_mono) (auto intro: pair_area_antimono ordered assms(3))
  moreover have "0 \<le> (\<Sum>(a, b)\<leftarrow>zip ?ss (tl ?ss). pair_area idle1 a b)"
    by (rule sum_list_nonneg) (auto intro: pair_area_nonneg ordered)
  ultimately show ?thesis
    using True by (simp add: integrate_energy_many)
next
  case False
  then have few: "length (get_samples m (Some t_start) (Some t_end)) < 2" by simp
  show ?thesis
  proof (cases "get_samples m (Some t_start) (Some t_end)")
    case Nil
    then show ?thesis by (simp add: integrate_energy_few [OF few])
  next
    case (Cons s rest)
    have "(snd s - idle2) / 1000 * (t_end - t_start) \<le> (snd s - idle1) / 1000 * (t_end - t_start)"
      using assms(2,3) by (intro mult_right_mono divide_right_mono) simp_all
    then show ?thesis
      using Cons by (simp add: integrate_energy_few [OF few] max.coboundedI2)
  qed
qed

theorem integrate_energy_idle_antimono_witness:
  "fst (integrate_energy ((init 100)\<lparr>samples := [(0, 1000), (2, 2000)]\<rparr>) 0 2 1500)
     \<le> fst (integrate_energy ((init 100)\<lparr>samples := [(0, 1000), (2, 2000)]\<rparr>) 0 2 500)
   \<and> 0 \<le> fst (integrate_energy ((init 100)\<lparr>samples := [(0, 1000), (2, 2000)]\<rparr>) 0 2 500)"
  using integrate_energy_idle_antimono
    [of "(init 100)\<lparr>samples := [(0, 1000), (2, 2000)]\<rparr>" 0 2 500 1500]
  by (simp add: init_def)

text \<open>
  C4. With two or more samples in the window, the idle clamp is applied to each endpoint
  of a pair before the two are averaged: an endpoint at or below the idle power adds
  \<open>0\<close> to the pair, whatever the other endpoint is, and when every selected sample is at or
  below the idle power the energy is \<open>0\<close>. The witness is the instance of the spec: the
  samples \<open>(0, 500)\<close> and \<open>(1, 500)\<close> with an idle power of \<open>600\<close> give \<open>0\<close> over \<open>[0, 1]\<close>.
\<close>

theorem integrate_energy_clamp_per_endpoint:
  assumes "ss = filter (\<lambda>(t, p). t_start \<le> t \<and> t \<le> t_end) (samples m)"
    and "2 \<le> length ss"
  shows "fst (integrate_energy m t_start t_end idle_mw) =
       (\<Sum>((t1, p1), (t2, p2))\<leftarrow>zip ss (tl ss).
          (((if p1 \<le> idle_mw then 0 else (p1 - idle_mw) / 1000)
            + (if p2 \<le> idle_mw then 0 else (p2 - idle_mw) / 1000)) / 2) * (t2 - t1))
     \<and> ((\<forall>(t, p)\<in>set ss. p \<le> idle_mw) \<longrightarrow>
          integrate_energy m t_start t_end idle_mw = (0, []))"
proof -
  have ss: "get_samples m (Some t_start) (Some t_end) = ss"
    using assms(1) by (simp add: get_samples_window)
  have many: "integrate_energy m t_start t_end idle_mw =
      ((\<Sum>(a, b)\<leftarrow>zip ss (tl ss). pair_area idle_mw a b), [])"
    using integrate_energy_many [of m t_start t_end idle_mw] assms(2) by (simp add: ss)
  have "(\<lambda>(a, b). pair_area idle_mw a b) =
      (\<lambda>((t1, p1), (t2, p2)).
          (((if p1 \<le> idle_mw then 0 else (p1 - idle_mw) / 1000)
            + (if p2 \<le> idle_mw then 0 else (p2 - idle_mw) / 1000)) / 2) * (t2 - t1))"
    by (auto simp: pair_area_def fun_eq_iff max_def)
  then have first: "fst (integrate_energy m t_start t_end idle_mw) =
       (\<Sum>((t1, p1), (t2, p2))\<leftarrow>zip ss (tl ss).
          (((if p1 \<le> idle_mw then 0 else (p1 - idle_mw) / 1000)
            + (if p2 \<le> idle_mw then 0 else (p2 - idle_mw) / 1000)) / 2) * (t2 - t1))"
    by (simp add: many)
  have second: "integrate_energy m t_start t_end idle_mw = (0, [])"
    if below: "\<forall>(t, p)\<in>set ss. p \<le> idle_mw"
  proof -
    have "pair_area idle_mw a b = 0" if "(a, b) \<in> set (zip ss (tl ss))" for a b
    proof -
      have "a \<in> set ss" using that by (rule set_zip_leftD)
      moreover have "b \<in> set (tl ss)" using that by (rule set_zip_rightD)
      then have "b \<in> set ss" using assms(2) by (cases ss) auto
      ultimately show ?thesis using below by (intro pair_area_below_idle) auto
    qed
    then have "map (\<lambda>(a, b). pair_area idle_mw a b) (zip ss (tl ss)) =
        map (\<lambda>_. 0) (zip ss (tl ss))"
      by (intro map_cong refl) auto
    then have "(\<Sum>(a, b)\<leftarrow>zip ss (tl ss). pair_area idle_mw a b) =
        sum_list (map (\<lambda>_. 0) (zip ss (tl ss)))"
      by (rule arg_cong)
    then have "(\<Sum>(a, b)\<leftarrow>zip ss (tl ss). pair_area idle_mw a b) = 0"
      by (simp only: sum_list_0)
    then show ?thesis by (simp add: many)
  qed
  from first second show ?thesis by blast
qed

theorem integrate_energy_clamp_per_endpoint_witness:
  "integrate_energy ((init 100)\<lparr>samples := [(0, 500), (1, 500)]\<rparr>) 0 1 600 = (0, [])"
  using integrate_energy_clamp_per_endpoint
    [of "[(0, 500), (1, 500)]" 0 1 "(init 100)\<lparr>samples := [(0, 500), (1, 500)]\<rparr>" 600]
  by (simp add: init_def)

text \<open>
  The order of clamp and average can be seen on the samples \<open>(0, 0)\<close> and \<open>(1, 2000)\<close> with
  an idle power of \<open>1000\<close>: the endpoints clamp to \<open>0\<close> and \<open>1000\<close> milliwatts and the
  energy is \<open>1/2\<close> joule, where a clamp of the average, \<open>max 0 (1000 - 1000)\<close>, would give \<open>0\<close>.
\<close>

lemma integrate_energy_clamp_before_average:
  "integrate_energy ((init 100)\<lparr>samples := [(0, 0), (1, 2000)]\<rparr>) 0 1 1000 = (1 / 2, [])"
  by (simp add: integrate_energy_def get_samples_def init_def trapezoid_step_def)

subsection \<open>The integrated span\<close>

text \<open>
  C10. With two or more samples in the window, the energy depends on the selected
  samples only: two windows that select the same samples give the same result. The
  integral runs from the first selected timestamp to the last one, so that samples of
  one constant power \<open>p\<close> give \<open>max 0 (p - idle_mw) / 1000\<close> times that span, whatever the
  window's own length is.
\<close>

theorem integrate_energy_window_independent:
  assumes "get_samples m (Some t_start) (Some t_end) = get_samples m (Some t_start') (Some t_end')"
    and "2 \<le> length (get_samples m (Some t_start) (Some t_end))"
  shows "integrate_energy m t_start t_end idle_mw = integrate_energy m t_start' t_end' idle_mw
     \<and> ((\<forall>s\<in>set (get_samples m (Some t_start) (Some t_end)). snd s = p) \<longrightarrow>
          fst (integrate_energy m t_start t_end idle_mw) =
            max 0 (p - idle_mw) / 1000
              * (fst (last (get_samples m (Some t_start) (Some t_end)))
                 - fst (hd (get_samples m (Some t_start) (Some t_end)))))"
proof (intro conjI impI)
  show "integrate_energy m t_start t_end idle_mw = integrate_energy m t_start' t_end' idle_mw"
    using assms integrate_energy_many [of m t_start t_end idle_mw]
      integrate_energy_many [of m t_start' t_end' idle_mw]
    by simp
next
  let ?ss = "get_samples m (Some t_start) (Some t_end)"
  assume "\<forall>s\<in>set ?ss. snd s = p"
  moreover have "?ss \<noteq> []" using assms(2) by auto
  ultimately have "(\<Sum>(a, b)\<leftarrow>zip ?ss (tl ?ss). pair_area idle_mw a b) =
      max 0 (p - idle_mw) / 1000 * (fst (last ?ss) - fst (hd ?ss))"
    by (intro pair_area_sum_constant)
  then show "fst (integrate_energy m t_start t_end idle_mw) =
      max 0 (p - idle_mw) / 1000 * (fst (last ?ss) - fst (hd ?ss))"
    using assms(2) by (simp add: integrate_energy_many)
qed

theorem integrate_energy_window_independent_witness:
  "integrate_energy ((init 100)\<lparr>samples := [(1, 3000), (2, 3000), (4, 3000)]\<rparr>) 0 100 1000
     = integrate_energy ((init 100)\<lparr>samples := [(1, 3000), (2, 3000), (4, 3000)]\<rparr>) 1 4 1000
   \<and> fst (integrate_energy ((init 100)\<lparr>samples := [(1, 3000), (2, 3000), (4, 3000)]\<rparr>) 0 100 1000)
     = 6"
proof -
  let ?M = "(init 100)\<lparr>samples := [(1, 3000), (2, 3000), (4, 3000)]\<rparr>"
  have sel: "get_samples ?M (Some 0) (Some 100) = [(1, 3000), (2, 3000), (4, 3000)]"
    by (simp add: get_samples_def init_def)
  have same: "get_samples ?M (Some 0) (Some 100) = get_samples ?M (Some 1) (Some 4)"
    by (simp add: get_samples_def init_def)
  have many: "2 \<le> length (get_samples ?M (Some 0) (Some 100))"
    by (simp add: sel)
  have const: "\<forall>s\<in>set (get_samples ?M (Some 0) (Some 100)). snd s = 3000"
    by (simp add: sel)
  note inst = integrate_energy_window_independent [OF same many, of 1000 3000]
  from inst have "integrate_energy ?M 0 100 1000 = integrate_energy ?M 1 4 1000"
    by (rule conjunct1)
  moreover from inst const have "fst (integrate_energy ?M 0 100 1000) =
      max 0 (3000 - 1000) / 1000
        * (fst (last (get_samples ?M (Some 0) (Some 100))) - fst (hd (get_samples ?M (Some 0) (Some 100))))"
    by blast
  then have "fst (integrate_energy ?M 0 100 1000) = 6"
    by (simp add: sel)
  ultimately show ?thesis by (rule conjI)
qed

subsection \<open>Ring eviction\<close>

lemma deque_append_length:
  "length d \<le> maxlen \<Longrightarrow> length (deque_append d x) \<le> maxlen"
  by (auto simp: deque_append_def maxlen_def)

lemma deque_append_drop:
  "length d \<le> maxlen \<Longrightarrow> deque_append d x = drop (length (d @ [x]) - maxlen) (d @ [x])"
  by (cases d) (auto simp: deque_append_def maxlen_def)

lemma append_samples_drop:
  "length (samples m) \<le> maxlen \<Longrightarrow>
   samples (append_samples m xs) = drop (length (samples m @ xs) - maxlen) (samples m @ xs)"
proof (induction xs arbitrary: m)
  case Nil
  then show ?case by (simp add: append_samples_def)
next
  case (Cons x xs)
  let ?m' = "append_sample m x"
  have len: "length (samples ?m') \<le> maxlen"
    using Cons.prems by (simp add: append_sample_def deque_append_length)
  have step: "samples ?m' = drop (length (samples m @ [x]) - maxlen) (samples m @ [x])"
    using Cons.prems by (simp add: append_sample_def deque_append_drop)
  have "samples (append_samples m (x # xs)) = samples (append_samples ?m' xs)"
    by (simp add: append_samples_def)
  also have "\<dots> = drop (length (samples ?m' @ xs) - maxlen) (samples ?m' @ xs)"
    using len by (rule Cons.IH)
  also have "\<dots> = drop (length (samples m @ x # xs) - maxlen) (samples m @ x # xs)"
  proof (cases "length (samples m) < maxlen")
    case True
    then show ?thesis by (simp add: step)
  next
    case False
    with Cons.prems have full: "length (samples m) = maxlen" by simp
    then have "samples ?m' = tl (samples m) @ [x]"
      by (simp add: append_sample_def deque_append_def)
    moreover have "samples m \<noteq> []" using full by (auto simp: maxlen_def)
    ultimately show ?thesis
      using full by (cases "samples m") (simp_all add: drop_Cons')
  qed
  finally show ?case .
qed

text \<open>
  C7. Starting from an empty buffer, after the readings \<open>xs\<close> were appended in this order
  the buffer holds \<open>xs\<close> without its first \<open>length xs - 100000\<close> elements: the most recent
  \<open>100000\<close> readings, in the order of their arrival, when \<open>xs\<close> is longer than the
  capacity, and all of \<open>xs\<close> otherwise. Every append returns a buffer; there is no
  failure case.
\<close>

theorem ring_eviction:
  "samples (append_samples (clear_samples m) xs) = drop (length xs - maxlen) xs
   \<and> (maxlen < length xs \<longrightarrow>
        length (samples (append_samples (clear_samples m) xs)) = maxlen
        \<and> samples (append_samples (clear_samples m) xs) = rev (take maxlen (rev xs)))"
proof -
  have "length (samples (clear_samples m)) \<le> maxlen"
    by (simp add: clear_samples_def)
  then have eq: "samples (append_samples (clear_samples m) xs) = drop (length xs - maxlen) xs"
    using append_samples_drop [of "clear_samples m" xs] by (simp add: clear_samples_def)
  then show ?thesis
    by (simp add: rev_take)
qed

text \<open>
  The instance: \<open>100003\<close> readings with the timestamps \<open>0, 1, 2, \<dots>\<close> leave the
  \<open>100000\<close> readings with the timestamps \<open>3, \<dots>, 100002\<close>.
\<close>

theorem ring_eviction_witness:
  "samples (append_samples (clear_samples (init 100)) (map (\<lambda>i. (real i, 2594)) [0..<100003]))
     = map (\<lambda>i. (real i, 2594)) [3..<100003]
   \<and> length (samples (append_samples (clear_samples (init 100)) (map (\<lambda>i. (real i, 2594)) [0..<100003])))
     = 100000"
  using ring_eviction [of "init 100" "map (\<lambda>i. (real i, 2594)) [0..<100003]"]
  by (simp add: maxlen_def drop_map del: upt_rec_numeral)

subsection \<open>Stopping\<close>

text \<open>
  C9. \<open>stop\<close> on a monitor that is not running returns at once: the monitor is
  unchanged (flag, process handle, thread handle, buffered samples) and no call is
  made. After any \<open>stop\<close> the monitor is not running, so a second \<open>stop\<close> is such a no-op.
\<close>

theorem stop_idempotent:
  "(\<not> running m \<longrightarrow> stop exits_in_time m = (m, []))
   \<and> stop exits_in_time' (fst (stop exits_in_time m)) = (fst (stop exits_in_time m), [])"
proof -
  have "\<not> running (fst (stop exits_in_time m))"
    by (simp add: stop_def Let_def split: option.splits)
  then show ?thesis
    by (simp add: stop_def [of _ "fst (stop exits_in_time m)"]) (simp add: stop_def)
qed

theorem stop_idempotent_witness:
  "stop True ((init 100)\<lparr>samples := [(1, 2594)]\<rparr>) = ((init 100)\<lparr>samples := [(1, 2594)]\<rparr>, [])"
  using stop_idempotent [of "(init 100)\<lparr>samples := [(1, 2594)]\<rparr>" True True]
  by (simp add: init_def)

subsection \<open>Idle calibration\<close>



subsection \<open>The power-line parser\<close>

lemma space_not_digit: "is_space c \<Longrightarrow> \<not> is_digit c"
  by (auto simp: is_space_def is_digit_def Let_def)

lemma slash_not_digit: "\<not> is_digit CHR ''/''"
  by (simp add: is_digit_def)

lemma takeWhile_run:
  assumes "\<forall>c\<in>set xs. P c" and "ys = [] \<or> \<not> P (hd ys)"
  shows "takeWhile P (xs @ ys) = xs" and "dropWhile P (xs @ ys) = ys"
  using assms by (cases ys; simp)+

lemma match_field_complete:
  assumes "s = name @ ws @ current @ ''/'' @ average @ rest"
    and "ws \<noteq> []" and "\<forall>c\<in>set ws. is_space c"
    and "current \<noteq> []" and "\<forall>c\<in>set current. is_digit c"
    and "average \<noteq> []" and "\<forall>c\<in>set average. is_digit c"
  shows "\<exists>g2. match_field name s = Some (current, g2)"
proof -
  define tail where "tail = CHR ''/'' # average @ rest"
  have s: "s = name @ ws @ current @ tail"
    by (simp add: assms(1) tail_def)
  have "\<not> is_space (hd (current @ tail))"
    using assms(4,5) by (cases current) (auto dest: space_not_digit)
  then have ws: "takeWhile is_space (ws @ current @ tail) = ws"
    and r2: "dropWhile is_space (ws @ current @ tail) = current @ tail"
    using assms(3) by (intro takeWhile_run; simp)+
  have "\<not> is_digit (hd tail)"
    by (simp add: tail_def slash_not_digit)
  then have g1: "takeWhile is_digit (current @ tail) = current"
    and r3: "dropWhile is_digit (current @ tail) = tail"
    using assms(5) by (intro takeWhile_run; simp)+
  have g2: "takeWhile is_digit (average @ rest) \<noteq> []"
    using assms(6,7) by (cases average) auto
  have "match_field name s =
      (case tail of
         [] \<Rightarrow> None
       | c # r4 \<Rightarrow>
           if c \<noteq> CHR ''/'' then None
           else let g2 = takeWhile is_digit r4 in if g2 = [] then None else Some (current, g2))"
    using assms(2,4) by (simp add: match_field_def Let_def s ws r2 g1 r3)
  also have "\<dots> = Some (current, takeWhile is_digit (average @ rest))"
    using g2 by (simp add: tail_def)
  finally show ?thesis by blast
qed

lemma match_field_sound:
  assumes "match_field name s = Some (g1, g2)"
  shows "\<exists>ws rest. s = name @ ws @ g1 @ ''/'' @ g2 @ rest
     \<and> ws \<noteq> [] \<and> (\<forall>c\<in>set ws. is_space c)
     \<and> g1 \<noteq> [] \<and> (\<forall>c\<in>set g1. is_digit c)
     \<and> g2 \<noteq> [] \<and> (\<forall>c\<in>set g2. is_digit c)"
proof -
  let ?r1 = "drop (length name) s"
  let ?ws = "takeWhile is_space ?r1"
  let ?r2 = "dropWhile is_space ?r1"
  let ?r3 = "dropWhile is_digit ?r2"
  from assms have pre: "prefix name s"
    by (auto simp: match_field_def split: if_splits)
  then have s: "s = name @ ?r1"
    by (auto simp: prefix_def)
  from assms pre have ws: "?ws \<noteq> []"
    by (auto simp: match_field_def Let_def split: if_splits)
  from assms pre ws have g1: "g1 = takeWhile is_digit ?r2" "g1 \<noteq> []"
    by (auto simp: match_field_def Let_def split: if_splits list.splits)
  from assms pre ws g1 obtain r4 where r3: "?r3 = CHR ''/'' # r4"
    and g2: "g2 = takeWhile is_digit r4" "g2 \<noteq> []"
    by (auto simp: match_field_def Let_def split: if_splits list.splits)
  have "?r1 = ?ws @ ?r2" by simp
  also have "?r2 = g1 @ ?r3" by (simp add: g1(1))
  also have "?r3 = ''/'' @ g2 @ dropWhile is_digit r4" by (simp add: r3 g2(1))
  finally have "s = name @ ?ws @ g1 @ ''/'' @ g2 @ dropWhile is_digit r4"
    using s by simp
  moreover have "\<forall>c\<in>set ?ws. is_space c" by (auto dest: set_takeWhileD)
  moreover have "\<forall>c\<in>set g1. is_digit c" "\<forall>c\<in>set g2. is_digit c"
    by (auto simp: g1(1) g2(1) dest: set_takeWhileD)
  ultimately show ?thesis using ws g1(2) g2(2) by blast
qed

lemma re_search_None:
  "re_search name s = None \<longleftrightarrow> (\<forall>i\<le>length s. match_field name (drop i s) = None)"
proof (induction s)
  case Nil
  then show ?case by simp
next
  case (Cons c cs)
  have "(\<forall>i\<le>length (c # cs). match_field name (drop i (c # cs)) = None) \<longleftrightarrow>
      match_field name (c # cs) = None \<and> (\<forall>i\<le>length cs. match_field name (drop i cs) = None)"
  proof (intro iffI conjI allI impI)
    assume all: "\<forall>i\<le>length (c # cs). match_field name (drop i (c # cs)) = None"
    show "match_field name (c # cs) = None"
      using all [rule_format, of 0] by simp
    fix i assume "i \<le> length cs"
    then show "match_field name (drop i cs) = None"
      using all [rule_format, of "Suc i"] by simp
  next
    assume rhs: "match_field name (c # cs) = None
      \<and> (\<forall>i\<le>length cs. match_field name (drop i cs) = None)"
    fix i assume "i \<le> length (c # cs)"
    with rhs show "match_field name (drop i (c # cs)) = None"
      by (cases i) auto
  qed
  with Cons.IH show ?case by (simp split: option.splits)
qed

lemma re_search_Some:
  "re_search name s = Some g \<Longrightarrow>
   \<exists>i\<le>length s. match_field name (drop i s) = Some g \<and> (\<forall>j<i. match_field name (drop j s) = None)"
proof (induction s)
  case Nil
  then show ?case by simp
next
  case (Cons c cs)
  show ?case
  proof (cases "match_field name (c # cs)")
    case (Some g')
    with Cons.prems have "match_field name (drop 0 (c # cs)) = Some g" by simp
    then show ?thesis by blast
  next
    case None
    with Cons.prems have "re_search name cs = Some g" by simp
    from Cons.IH [OF this] obtain i where i: "i \<le> length cs"
      "match_field name (drop i cs) = Some g" "\<forall>j<i. match_field name (drop j cs) = None"
      by blast
    have "\<forall>j<Suc i. match_field name (drop j (c # cs)) = None"
      using None i(3) by (auto simp: less_Suc_eq_0_disj)
    with i(1,2) show ?thesis
      by (intro exI [of _ "Suc i"]) simp
  qed
qed

lemma field_at_match:
  assumes "field_at name line j c"
  shows "j < length line" and "\<exists>g2. match_field name (drop j line) = Some (c, g2)"
proof -
  from assms obtain ws average rest where
    d: "drop j line = name @ ws @ c @ ''/'' @ average @ rest"
    and w: "ws \<noteq> []" "\<forall>x\<in>set ws. is_space x"
    and cu: "c \<noteq> []" "\<forall>x\<in>set c. is_digit x"
    and av: "average \<noteq> []" "\<forall>x\<in>set average. is_digit x"
    unfolding field_at_def by blast
  from d w(1) have "drop j line \<noteq> []" by simp
  then show "j < length line" by simp
  from d w cu av show "\<exists>g2. match_field name (drop j line) = Some (c, g2)"
    by (rule match_field_complete)
qed

lemma match_field_at:
  assumes "match_field name (drop i line) = Some (g1, g2)"
  shows "field_at name line i g1"
  using match_field_sound [OF assms] unfolding field_at_def by blast

lemma re_search_field_at:
  assumes "re_search name line = Some (g1, g2)"
  shows "\<exists>i. field_at name line i g1 \<and> (\<forall>j c. field_at name line j c \<longrightarrow> i \<le> j)"
proof -
  from re_search_Some [OF assms] obtain i where
    m: "match_field name (drop i line) = Some (g1, g2)"
    and first: "\<forall>j<i. match_field name (drop j line) = None"
    by blast
  have "i \<le> j" if "field_at name line j c" for j c
  proof (rule ccontr)
    assume "\<not> i \<le> j"
    then have "match_field name (drop j line) = None" using first by simp
    with field_at_match(2) [OF that] show False by simp
  qed
  with match_field_at [OF m] show ?thesis by blast
qed

lemma re_search_no_field:
  assumes "re_search name line = None"
  shows "\<not> field_at name line j c"
proof
  assume f: "field_at name line j c"
  from field_at_match(1) [OF f] assms have "match_field name (drop j line) = None"
    by (simp add: re_search_None)
  with field_at_match(2) [OF f] show False by simp
qed

lemma field_at_sublist:
  assumes "field_at name line i c"
  shows "sublist name line"
proof -
  from assms obtain r where "drop i line = name @ r"
    unfolding field_at_def by auto
  then have "line = take i line @ name @ r"
    by (metis append_take_drop_id)
  then show ?thesis unfolding sublist_def by blast
qed

lemma foldl_decimal:
  "foldl (\<lambda>acc c. 10 * acc + f c) 0 ds = horner_sum f (10 :: nat) (rev ds)"
  by (induction ds rule: rev_induct) simp_all

lemma float_of_digits_positional:
  "float_of_digits ds = real (\<Sum>n = 0..<length ds. (of_char (rev ds ! n) - 48) * 10 ^ n)"
proof -
  have "foldl (\<lambda>acc c. 10 * acc + digit_value c) 0 ds
      = (\<Sum>n = 0..<length (rev ds). digit_value (rev ds ! n) * 10 ^ n)"
    unfolding foldl_decimal by (rule horner_sum_eq_sum)
  then show ?thesis
    by (simp add: float_of_digits_def digit_value_def)
qed

lemma parse_power_fields:
  "((\<exists>i c. field_at ''VDD_IN'' line i c) \<longrightarrow>
      (\<exists>i current. field_at ''VDD_IN'' line i current
         \<and> (\<forall>j c. field_at ''VDD_IN'' line j c \<longrightarrow> i \<le> j)
         \<and> parse_power line = Some (float_of_digits current)))
   \<and> (\<not> (\<exists>i c. field_at ''VDD_IN'' line i c) \<and> (\<exists>i c. field_at ''POM_5V_IN'' line i c) \<longrightarrow>
      (\<exists>i current. field_at ''POM_5V_IN'' line i current
         \<and> (\<forall>j c. field_at ''POM_5V_IN'' line j c \<longrightarrow> i \<le> j)
         \<and> parse_power line = Some (float_of_digits current)))
   \<and> (\<not> (\<exists>i c. field_at ''VDD_IN'' line i c) \<and> \<not> (\<exists>i c. field_at ''POM_5V_IN'' line i c) \<longrightarrow>
      parse_power line = None)
   \<and> (\<not> sublist ''VDD_IN'' line \<and> \<not> sublist ''POM_5V_IN'' line \<longrightarrow> parse_power line = None)"
proof -
  have vdd: "\<exists>i. field_at ''VDD_IN'' line i g1 \<and> (\<forall>j c. field_at ''VDD_IN'' line j c \<longrightarrow> i \<le> j)
      \<and> parse_power line = Some (float_of_digits g1)"
    if "re_search ''VDD_IN'' line = Some (g1, g2)" for g1 g2
    using re_search_field_at [OF that] that by (auto simp: parse_power_def)
  have pom: "\<exists>i. field_at ''POM_5V_IN'' line i g1 \<and> (\<forall>j c. field_at ''POM_5V_IN'' line j c \<longrightarrow> i \<le> j)
      \<and> parse_power line = Some (float_of_digits g1)"
    if "re_search ''VDD_IN'' line = None" "re_search ''POM_5V_IN'' line = Some (g1, g2)" for g1 g2
    using re_search_field_at [OF that(2)] that by (auto simp: parse_power_def)
  have none: "parse_power line = None"
    if "re_search ''VDD_IN'' line = None" "re_search ''POM_5V_IN'' line = None"
    using that by (simp add: parse_power_def)
  have found: "\<exists>g1 g2. re_search name line = Some (g1, g2)" if "field_at name line i c" for name i c
    using re_search_no_field [of name line i c] that by (cases "re_search name line") auto
  have missing: "re_search name line = None" if "\<not> (\<exists>i c. field_at name line i c)" for name
  proof (cases "re_search name line")
    case None
    then show ?thesis .
  next
    case (Some g)
    with re_search_field_at [of name line "fst g" "snd g"] that show ?thesis by auto
  qed
  have c1: "(\<exists>i c. field_at ''VDD_IN'' line i c) \<longrightarrow>
      (\<exists>i current. field_at ''VDD_IN'' line i current
         \<and> (\<forall>j c. field_at ''VDD_IN'' line j c \<longrightarrow> i \<le> j)
         \<and> parse_power line = Some (float_of_digits current))"
    using found vdd by blast
  have c2: "\<not> (\<exists>i c. field_at ''VDD_IN'' line i c) \<and> (\<exists>i c. field_at ''POM_5V_IN'' line i c) \<longrightarrow>
      (\<exists>i current. field_at ''POM_5V_IN'' line i current
         \<and> (\<forall>j c. field_at ''POM_5V_IN'' line j c \<longrightarrow> i \<le> j)
         \<and> parse_power line = Some (float_of_digits current))"
    using found missing pom by blast
  have c3: "\<not> (\<exists>i c. field_at ''VDD_IN'' line i c) \<and> \<not> (\<exists>i c. field_at ''POM_5V_IN'' line i c) \<longrightarrow>
      parse_power line = None"
  proof
    assume neither: "\<not> (\<exists>i c. field_at ''VDD_IN'' line i c) \<and> \<not> (\<exists>i c. field_at ''POM_5V_IN'' line i c)"
    from neither have "\<not> (\<exists>i c. field_at ''VDD_IN'' line i c)" by (rule conjunct1)
    then have "re_search ''VDD_IN'' line = None" by (rule missing)
    moreover from neither have "\<not> (\<exists>i c. field_at ''POM_5V_IN'' line i c)" by (rule conjunct2)
    then have "re_search ''POM_5V_IN'' line = None" by (rule missing)
    ultimately show "parse_power line = None" by (rule none)
  qed
  have c4: "\<not> sublist ''VDD_IN'' line \<and> \<not> sublist ''POM_5V_IN'' line \<longrightarrow> parse_power line = None"
    using c3 field_at_sublist by blast
  from c1 c2 c3 c4 show ?thesis by (intro conjI)
qed

text \<open>
  C8. When the line has a well-formed \<^verbatim>\<open>VDD_IN\<close> field, \<open>parse_power\<close> returns
  the current member of the leftmost one; when it has none but has a well-formed
  \<^verbatim>\<open>POM_5V_IN\<close> field, the current member of the leftmost of these. The value
  returned is the number that the digits of the current member write in base ten: the
  \<open>n\<close>-th digit from the right, whose value is its code point less 48, counts \<open>10 ^ n\<close>
  times. The digits of the average are not part of the result. When the line has no
  well-formed field of either name (the name is missing, or the text after it is not
  whitespace, digits, a slash and a digit), and so when neither name occurs in the line,
  the result is \<open>None\<close>. The function returns for every line: it has no error case.
\<close>

theorem parse_power_current_member:
  "((\<exists>i c. field_at ''VDD_IN'' line i c) \<longrightarrow>
      (\<exists>i current. field_at ''VDD_IN'' line i current
         \<and> (\<forall>j c. field_at ''VDD_IN'' line j c \<longrightarrow> i \<le> j)
         \<and> parse_power line = Some (real (\<Sum>n = 0..<length current. (of_char (rev current ! n) - 48) * 10 ^ n))))
   \<and> (\<not> (\<exists>i c. field_at ''VDD_IN'' line i c) \<and> (\<exists>i c. field_at ''POM_5V_IN'' line i c) \<longrightarrow>
      (\<exists>i current. field_at ''POM_5V_IN'' line i current
         \<and> (\<forall>j c. field_at ''POM_5V_IN'' line j c \<longrightarrow> i \<le> j)
         \<and> parse_power line = Some (real (\<Sum>n = 0..<length current. (of_char (rev current ! n) - 48) * 10 ^ n))))
   \<and> (\<not> (\<exists>i c. field_at ''VDD_IN'' line i c) \<and> \<not> (\<exists>i c. field_at ''POM_5V_IN'' line i c) \<longrightarrow>
      parse_power line = None)
   \<and> (\<not> sublist ''VDD_IN'' line \<and> \<not> sublist ''POM_5V_IN'' line \<longrightarrow> parse_power line = None)"
  using parse_power_fields [of line] by (simp only: float_of_digits_positional)

theorem parse_power_current_member_witness:
  "(\<exists>i current. field_at ''VDD_IN'' ''GPU@34C VDD_IN 2594/2593 VDD_SOC 922/922'' i current
       \<and> (\<forall>j c. field_at ''VDD_IN'' ''GPU@34C VDD_IN 2594/2593 VDD_SOC 922/922'' j c \<longrightarrow> i \<le> j)
       \<and> parse_power ''GPU@34C VDD_IN 2594/2593 VDD_SOC 922/922''
            = Some (real (\<Sum>n = 0..<length current. (of_char (rev current ! n) - 48) * 10 ^ n)))
   \<and> parse_power ''GPU@34C VDD_IN 2594/2593 VDD_SOC 922/922'' = Some 2594
   \<and> parse_power ''RAM 2156/7471MB CPU@38.5C'' = None"
proof -
  let ?line = "''GPU@34C VDD_IN 2594/2593 VDD_SOC 922/922''"
  have "drop 8 ?line = ''VDD_IN'' @ '' '' @ ''2594'' @ ''/'' @ ''2593'' @ '' VDD_SOC 922/922''"
    by simp
  moreover have "\<forall>c\<in>set '' ''. is_space c"
    by (simp add: is_space_def)
  moreover have "\<forall>c\<in>set ''2594''. is_digit c" "\<forall>c\<in>set ''2593''. is_digit c"
    by (simp_all add: is_digit_def)
  ultimately have "field_at ''VDD_IN'' ?line 8 ''2594''"
    unfolding field_at_def by blast
  then have "\<exists>i c. field_at ''VDD_IN'' ?line i c" by blast
  with parse_power_current_member [of ?line]
  have first: "\<exists>i current. field_at ''VDD_IN'' ?line i current
       \<and> (\<forall>j c. field_at ''VDD_IN'' ?line j c \<longrightarrow> i \<le> j)
       \<and> parse_power ?line = Some (real (\<Sum>n = 0..<length current. (of_char (rev current ! n) - 48) * 10 ^ n))"
    by blast
  have second: "parse_power ?line = Some 2594"
    by (simp add: parse_power_def match_field_def is_space_def is_digit_def float_of_digits_def
        digit_value_def)
  have "\<not> sublist ''VDD_IN'' ''RAM 2156/7471MB CPU@38.5C''"
    and "\<not> sublist ''POM_5V_IN'' ''RAM 2156/7471MB CPU@38.5C''"
    by (simp_all add: sublist_Cons_right)
  with parse_power_current_member [of "''RAM 2156/7471MB CPU@38.5C''"]
  have third: "parse_power ''RAM 2156/7471MB CPU@38.5C'' = None"
    by blast
  from first second third show ?thesis by (intro conjI)
qed


end
